theory Spec2Isabelle
  imports Main Complex_Main "HOL-Library.AList" "HOL-Library.Multiset" "HOL-Library.Word"
begin

section \<open>Data model of \<open>cross_validator.py\<close>\<close>

text \<open>
  The module has one function, \<open>cross_validate\<close>. Prices and weights live in pandas
  frames; the frames are modelled by their rows. Exceptions are values of \<open>error\<close>:
  an uncaught exception leaves \<open>cross_validate\<close> at once, so every loop below stops at
  the first \<open>Inl\<close>.

  \<^item> \<open>LookupError\<close>: \<open>source_weight[0]\<close> finds no entry labelled \<open>0\<close> (Python's
    \<open>KeyError\<close> or \<open>IndexError\<close>, both subclasses of \<open>LookupError\<close>);
  \<^item> \<open>ValueError\<close>: \<open>max\<close> of an empty sequence;
  \<^item> \<open>UnboundLocalError\<close>: \<open>period_df\<close> read before any assignment.

  A price is a float of the frame: a number or NaN (a missing value). \<open>Num x\<close> stands
  for the float64 the transposed frame holds, so an integer volume is the float it is
  coerced to. Two NaN are never the same dictionary key (each is an object of its own
  and \<open>nan != nan\<close>), and every comparison with NaN is false. Weights are the int64
  values of the \<open>consensus_weight\<close> column, as in the module's \<open>__main__\<close> block; their
  sums wrap. Vendor identities are integers, tsids and dates are strings.
\<close>

datatype error = LookupError | ValueError | UnboundLocalError

datatype price = Num real | NaN

type_synonym weight = "64 word"

type_synonym source_id = int
type_synonym tsid = string
type_synonym date = string

text \<open>
  \<open>weights_df\<close>: one row per entry, \<open>((index label, data_vendor_id), consensus_weight)\<close>.
  The index label is the row label pandas keeps for every row of a frame; a frame built
  without an explicit index (as in the module's \<open>__main__\<close> block) labels its rows
  \<open>0, 1, 2, ...\<close> (\<open>range_index\<close>).
\<close>

type_synonym weights_df = "((int \<times> source_id) \<times> weight) list"

definition range_index :: "(source_id \<times> weight) list \<Rightarrow> weights_df" where
  "range_index rows = map (\<lambda>(i, (s, w)). ((int i, s), w)) (enumerate 0 rows)"

text \<open>
  Lines 119--121 select the \<open>consensus_weight\<close> entries of the rows whose
  \<open>data_vendor_id\<close> equals the source; the selection keeps the rows' index labels.
  \<open>source_weight[0]\<close> (lines 130, 135, 148) then reads the entry \<^emph>\<open>labelled\<close> \<open>0\<close> of
  that selection, because the index is an integer index; it raises when the selection has
  no entry with that label. (Two rows with the same label and the same vendor would make
  the entry a Series; the model reads the first of them.)
\<close>

definition source_weight_0 :: "weights_df \<Rightarrow> source_id \<Rightarrow> error + weight" where
  "source_weight_0 weights_df s =
     (case map_of weights_df (0, s) of None \<Rightarrow> Inl LookupError | Some w \<Rightarrow> Inr w)"

text \<open>The rows of \<open>weights_df\<close> that belong to a source, whatever their label.\<close>

definition weight_entries :: "weights_df \<Rightarrow> source_id \<Rightarrow> weight list" where
  "weight_entries weights_df s = map snd (filter (\<lambda>r. snd (fst r) = s) weights_df)"

subsection \<open>The voter (lines 106--153)\<close>

text \<open>
  \<open>field_consensus\<close> is a dictionary from value to accumulated weight, kept as an
  association list in insertion order. \<open>source_data\<close> is the pair
  \<open>(data_vendor_id, value)\<close>.
\<close>

type_synonym field_consensus = "(price \<times> weight) list"

text \<open>
  \<open>value in field_consensus\<close> with \<open>field_consensus[value]\<close>, and
  \<open>field_consensus[value] = w\<close>. A NaN is never found among the keys and always
  becomes a new key.
\<close>

fun dict_get :: "field_consensus \<Rightarrow> price \<Rightarrow> weight option" where
  "dict_get fc NaN = None"
| "dict_get fc (Num x) = map_of fc (Num x)"

fun dict_set :: "price \<Rightarrow> weight \<Rightarrow> field_consensus \<Rightarrow> field_consensus" where
  "dict_set NaN w fc = fc @ [(NaN, w)]"
| "dict_set (Num x) w fc = AList.update (Num x) w fc"

fun vote_source ::
  "source_id list \<Rightarrow> weights_df \<Rightarrow> field_consensus \<Rightarrow> source_id \<times> price \<Rightarrow> error + field_consensus"
where
  "vote_source source_id_exclude_list weights_df field_consensus source_data =
     (if fst source_data \<notin> set source_id_exclude_list then
        (case source_weight_0 weights_df (fst source_data) of
           Inl e \<Rightarrow> Inl e
         | Inr w \<Rightarrow>
            (if field_consensus \<noteq> [] then
               (case dict_get field_consensus (snd source_data) of
                  Some acc \<Rightarrow> Inr (dict_set (snd source_data) (acc + w) field_consensus)
                | None \<Rightarrow> Inr (dict_set (snd source_data) w field_consensus))
             else Inr (dict_set (snd source_data) w field_consensus)))
      else Inr field_consensus)"

fun source_loop ::
  "source_id list \<Rightarrow> weights_df \<Rightarrow> field_consensus \<Rightarrow> (source_id \<times> price) list \<Rightarrow> error + field_consensus"
where
  "source_loop excl weights_df fc [] = Inr fc"
| "source_loop excl weights_df fc (source_data # rest) =
     (case vote_source excl weights_df fc source_data of
        Inl e \<Rightarrow> Inl e
      | Inr fc' \<Rightarrow> source_loop excl weights_df fc' rest)"

text \<open>The comparison \<open>a > b\<close> of two floats: false when either is NaN.\<close>

fun price_gt :: "price \<Rightarrow> price \<Rightarrow> bool" where
  "price_gt (Num a) (Num b) = (a > b)"
| "price_gt a b = False"

text \<open>
  Python's \<open>max\<close> over a sequence: \<open>ValueError\<close> when it is empty; otherwise it keeps
  the first item and replaces it by each later item that compares greater.
\<close>

fun py_max :: "price list \<Rightarrow> error + price" where
  "py_max [] = Inl ValueError"
| "py_max (x # xs) = Inr (fold (\<lambda>item m. if price_gt item m then item else m) xs x)"

definition consensus_value :: "field_consensus \<Rightarrow> error + price" where
  "consensus_value field_consensus = py_max (map fst field_consensus)"

text \<open>One round: lines 106--152 for the \<open>field_data\<close> of one period and one field.\<close>

definition field_vote ::
  "source_id list \<Rightarrow> weights_df \<Rightarrow> (source_id \<times> price) list \<Rightarrow> error + price" where
  "field_vote excl weights_df field_data =
     (case source_loop excl weights_df [] field_data of
        Inl e \<Rightarrow> Inl e
      | Inr fc \<Rightarrow> consensus_value fc)"

text \<open>The candidates that pass the test of line 116.\<close>

definition surviving :: "source_id list \<Rightarrow> (source_id \<times> price) list \<Rightarrow> (source_id \<times> price) list" where
  "surviving excl field_data = filter (\<lambda>sd. fst sd \<notin> set excl) field_data"

subsection \<open>The stored prices and the collaborators\<close>

text \<open>
  A row of a price table. \<open>tsid_prices_df\<close> is the list of a tsid's rows, indexed by
  \<open>(date, data_vendor_id)\<close>, with the five price fields as columns.
\<close>

record price_row =
  r_tsid :: tsid
  r_date :: date
  r_vendor :: source_id
  r_open :: price
  r_high :: price
  r_low :: price
  r_close :: price
  r_volume :: price

text \<open>
  The database behind \<open>db_location\<close>: the vendor table (name to id) and the price
  tables by name.
\<close>

record store =
  data_vendor :: "string \<Rightarrow> source_id"
  prices :: "string \<Rightarrow> price_row list"

text \<open>
  What the run cannot decide by itself: whether extracting a period's block raises
  \<open>KeyError\<close> (line 90), whether a delete reports success (line 177), whether an append
  is stored.
\<close>

record env =
  xs_fails :: "tsid \<Rightarrow> date \<Rightarrow> bool"
  delete_fails :: "tsid \<Rightarrow> bool"
  append_fails :: "tsid \<Rightarrow> bool"

datatype status = Success | Failure

text \<open>
  The helpers of \<open>utilities.database_queries\<close> are imported by the module (lines 4--6)
  and are not part of it.
\<close>

definition retrieve_data_vendor_id :: "store \<Rightarrow> string \<Rightarrow> source_id" where
  \<comment> \<open>Modelled from the spec: \<open>resolve_source_identity(store, name) -> SourceIdentity\<close>,
      the body of \<open>retrieve_data_vendor_id\<close> is missing.\<close>
  "retrieve_data_vendor_id st name = data_vendor st name"

definition query_all_tsid_prices :: "store \<Rightarrow> string \<Rightarrow> tsid \<Rightarrow> price_row list" where
  \<comment> \<open>Modelled from the spec: \<open>fetch_all_observations(store, table, tsid)\<close>, all stored
      observations of the instrument; the body of \<open>query_all_tsid_prices\<close> is missing.\<close>
  "query_all_tsid_prices st table tsid = filter (\<lambda>r. r_tsid r = tsid) (prices st table)"

definition delete_sql_table_rows ::
  "env \<Rightarrow> store \<Rightarrow> string \<Rightarrow> tsid \<Rightarrow> source_id \<Rightarrow> status \<times> store" where
  \<comment> \<open>Modelled from the spec: \<open>delete_rows(store, table, tsid, source) -> success|failure\<close>,
      individually transactional; the body of \<open>delete_sql_table_rows\<close> is missing. The
      rows are those of the query of lines 169--172.\<close>
  "delete_sql_table_rows e st table tsid validator_id =
     (if delete_fails e tsid then (Failure, st)
      else (Success,
            st\<lparr>prices := (prices st)(table :=
                 filter (\<lambda>r. \<not> (r_tsid r = tsid \<and> r_vendor r = validator_id))
                   (prices st table))\<rparr>))"

type_synonym ohlcv = "price \<times> price \<times> price \<times> price \<times> price"

text \<open>
  \<open>consensus_price_df\<close>: one row per date (the index), in the order the dates were
  entered. Line 158 adds the \<open>data_vendor_id\<close> column.
\<close>

type_synonym consensus_price_df = "(date \<times> ohlcv) list"

definition consensus_row :: "tsid \<Rightarrow> source_id \<Rightarrow> date \<times> ohlcv \<Rightarrow> price_row" where
  "consensus_row tsid validator_id dr =
     (case dr of (d, (op, hi, lo, cl, vo)) \<Rightarrow>
        \<lparr>r_tsid = tsid, r_date = d, r_vendor = validator_id,
         r_open = op, r_high = hi, r_low = lo, r_close = cl, r_volume = vo\<rparr>)"

definition df_to_sql ::
  "env \<Rightarrow> store \<Rightarrow> string \<Rightarrow> tsid \<Rightarrow> source_id \<Rightarrow> consensus_price_df \<Rightarrow> store" where
  \<comment> \<open>Modelled from the spec: \<open>append_rows(store, table, rows, tsid) -> success|failure\<close>,
      append-only, the rows tagged with the consensus identity; the body of \<open>df_to_sql\<close>
      is missing. \<open>cross_validate\<close> ignores what it returns.\<close>
  "df_to_sql e st table tsid validator_id df =
     (if append_fails e tsid then st
      else st\<lparr>prices := (prices st)(table :=
             prices st table @ map (consensus_row tsid validator_id) df)\<rparr>)"

subsection \<open>The assembler (lines 59--153)\<close>

text \<open>pandas' \<open>unique\<close>: the distinct entries in order of first appearance.\<close>

fun unique :: "'a list \<Rightarrow> 'a list" where
  "unique [] = []"
| "unique (x # xs) = x # unique (removeAll x xs)"

definition xs :: "price_row list \<Rightarrow> date \<Rightarrow> price_row list" where
  "xs tsid_prices_df d = filter (\<lambda>r. r_date r = d) tsid_prices_df"

text \<open>
  A row of the transposed \<open>period_df\<close>: the field's value for each source, in the
  order of the period's rows.
\<close>

definition field_data :: "(price_row \<Rightarrow> price) \<Rightarrow> price_row list \<Rightarrow> (source_id \<times> price) list" where
  "field_data f period_df = map (\<lambda>r. (r_vendor r, f r)) period_df"




text \<open>
  Lines 101--153 for one period: the five fields in column order. An exception ends the
  whole call, so the cells written before it are never seen; the row is entered at once.
\<close>

definition period_consensus :: "source_id list \<Rightarrow> weights_df \<Rightarrow> price_row list \<Rightarrow> error + ohlcv" where
  "period_consensus excl weights_df period_df =
     (case field_vote excl weights_df (field_data r_open period_df) of Inl e \<Rightarrow> Inl e | Inr op \<Rightarrow>
      case field_vote excl weights_df (field_data r_high period_df) of Inl e \<Rightarrow> Inl e | Inr hi \<Rightarrow>
      case field_vote excl weights_df (field_data r_low period_df) of Inl e \<Rightarrow> Inl e | Inr lo \<Rightarrow>
      case field_vote excl weights_df (field_data r_close period_df) of Inl e \<Rightarrow> Inl e | Inr cl \<Rightarrow>
      case field_vote excl weights_df (field_data r_volume period_df) of Inl e \<Rightarrow> Inl e | Inr vo \<Rightarrow>
      Inr (op, hi, lo, cl, vo))"

text \<open>
  \<open>period_df\<close> is a local variable of \<open>cross_validate\<close>: \<open>None\<close> while it is unbound,
  and it keeps its last value across periods and across tsids. Line 89 binds it to the
  block of the period, one row per vendor (\<open>By_vendor\<close>); line 97 rebinds it to the
  transpose, one row per field (\<open>By_field\<close>).
\<close>

datatype period_frame = By_vendor "price_row list" | By_field "price_row list"

fun transpose_frame :: "period_frame \<Rightarrow> period_frame" where
  "transpose_frame (By_vendor p) = By_field p"
| "transpose_frame (By_field p) = By_vendor p"

text \<open>
  The \<open>finally\<close> block (lines 94--153) on the frame \<open>period_df\<close> holds when it starts.
  After line 97 the frame has either one row per field, and lines 101--153 vote on it
  and enter the period's row; or, when the frame was the transpose left by an earlier
  period, one row per vendor. Then \<open>source_data[0]\<close> is a field name: it is in no
  exclusion list, equals no \<open>data_vendor_id\<close>, the selection of lines 119--121 is
  empty and \<open>source_weight[0]\<close> raises at the first row (a frame without rows is passed
  over).
\<close>

definition finally_block ::
  "source_id list \<Rightarrow> weights_df \<Rightarrow> date \<Rightarrow> period_frame \<Rightarrow> consensus_price_df \<Rightarrow>
   error + (period_frame \<times> consensus_price_df)"
where
  "finally_block excl weights_df d period_df cdf =
     (case transpose_frame period_df of
        By_field p \<Rightarrow>
          (case period_consensus excl weights_df p of
             Inl err \<Rightarrow> Inl err
           | Inr row \<Rightarrow> Inr (By_field p, AList.update d row cdf))
      | By_vendor p \<Rightarrow>
          (case p of
             [] \<Rightarrow> Inr (By_vendor p, cdf)
           | r # rest \<Rightarrow> Inl LookupError))"

text \<open>
  Lines 78--153. When \<open>xs\<close> raises \<open>KeyError\<close> the handler prints and the \<open>finally\<close>
  block runs all the same, on whatever \<open>period_df\<close> holds.
\<close>

fun date_loop ::
  "env \<Rightarrow> source_id list \<Rightarrow> weights_df \<Rightarrow> tsid \<Rightarrow> price_row list \<Rightarrow> date list \<Rightarrow>
   period_frame option \<times> consensus_price_df \<Rightarrow>
   error + (period_frame option \<times> consensus_price_df)"
where
  "date_loop e excl weights_df tsid tsid_prices_df [] s = Inr s"
| "date_loop e excl weights_df tsid tsid_prices_df (d # ds) (period_df, cdf) =
     (case (if xs_fails e tsid d then period_df else Some (By_vendor (xs tsid_prices_df d))) of
        None \<Rightarrow> Inl UnboundLocalError
      | Some frame \<Rightarrow>
         (case finally_block excl weights_df d frame cdf of
            Inl err \<Rightarrow> Inl err
          | Inr (frame', cdf') \<Rightarrow>
             date_loop e excl weights_df tsid tsid_prices_df ds (Some frame', cdf')))"

subsection \<open>The persistence step (lines 155--186) and the run\<close>

text \<open>The body of the loop of line 59 for one tsid.\<close>

definition validate_tsid ::
  "env \<Rightarrow> string \<Rightarrow> weights_df \<Rightarrow> source_id list \<Rightarrow> tsid \<Rightarrow>
   store \<times> period_frame option \<Rightarrow> error + (store \<times> period_frame option)"
where
  "validate_tsid e table weights_df excl tsid s =
     (case s of (st, period_df) \<Rightarrow>
        (let tsid_prices_df = query_all_tsid_prices st table tsid;
             unique_dates = unique (map r_date tsid_prices_df);
             unique_sources = unique (map r_vendor tsid_prices_df)
         in case date_loop e excl weights_df tsid tsid_prices_df unique_dates (period_df, []) of
              Inl err \<Rightarrow> Inl err
            | Inr (period_df', cdf) \<Rightarrow>
               (let validator_id = retrieve_data_vendor_id st ''pySecMaster_Consensus''
                in if validator_id \<in> set unique_sources then
                     (case delete_sql_table_rows e st table tsid validator_id of
                        (Success, st') \<Rightarrow>
                           Inr (df_to_sql e st' table tsid validator_id cdf, period_df')
                      | (Failure, st') \<Rightarrow> Inr (st', period_df'))
                   else Inr (df_to_sql e st table tsid validator_id cdf, period_df'))))"

text \<open>
  The loop of line 59. An exception leaves the call with the store as the tsids before
  it left it.
\<close>

fun tsid_loop ::
  "env \<Rightarrow> string \<Rightarrow> weights_df \<Rightarrow> source_id list \<Rightarrow> tsid list \<Rightarrow>
   store \<times> period_frame option \<Rightarrow> (error \<times> store) + (store \<times> period_frame option)"
where
  "tsid_loop e table weights_df excl [] s = Inr s"
| "tsid_loop e table weights_df excl (tsid # rest) s =
     (case validate_tsid e table weights_df excl tsid s of
        Inl err \<Rightarrow> Inl (err, fst s)
      | Inr s' \<Rightarrow> tsid_loop e table weights_df excl rest s')"

definition source_exclude_list :: "string list" where
  "source_exclude_list = [''pySecMaster_Consensus'']"

definition cross_validate ::
  "env \<Rightarrow> store \<Rightarrow> string \<Rightarrow> tsid list \<Rightarrow> weights_df \<Rightarrow> (error \<times> store) + store" where
  "cross_validate e db table tsid_list weights_df =
     (let source_id_exclude_list = map (retrieve_data_vendor_id db) source_exclude_list
      in case tsid_loop e table weights_df source_id_exclude_list tsid_list (db, None) of
           Inl err \<Rightarrow> Inl err
         | Inr (db', period_df) \<Rightarrow> Inr db')"

subsection \<open>Notions used in the statements\<close>

text \<open>The lookup of lines 119--148 returns a weight for the source.\<close>

definition resolves :: "weights_df \<Rightarrow> source_id \<Rightarrow> bool" where
  "resolves weights_df s = (case source_weight_0 weights_df s of Inl e \<Rightarrow> False | Inr w \<Rightarrow> True)"

text \<open>The weight a dictionary holds for a value (\<open>0\<close> when the value is no key), and the
  weight the lookup returns for a source (\<open>0\<close> when it raises).\<close>

definition support_of :: "field_consensus \<Rightarrow> price \<Rightarrow> weight" where
  "support_of fc v = (case dict_get fc v of None \<Rightarrow> 0 | Some a \<Rightarrow> a)"

definition weight_of :: "weights_df \<Rightarrow> source_id \<Rightarrow> weight" where
  "weight_of weights_df s = (case source_weight_0 weights_df s of Inl e \<Rightarrow> 0 | Inr w \<Rightarrow> w)"

text \<open>The numbers among a list of keys.\<close>

fun numbers :: "price list \<Rightarrow> real list" where
  "numbers [] = []"
| "numbers (Num x # ps) = x # numbers ps"
| "numbers (NaN # ps) = numbers ps"

text \<open>
  What \<open>max\<close> returns on the keys of a support map that is not empty: NaN when the
  first key entered is NaN, otherwise the largest of the numbers among the keys.
\<close>

definition first_nan_or_largest :: "field_consensus \<Rightarrow> price" where
  "first_nan_or_largest fc =
     (if fst (hd fc) = NaN then NaN else Num (Max (set (numbers (map fst fc)))))"

text \<open>The weights frame of the module's \<open>__main__\<close> block (lines 206--208).\<close>

definition test_source_weights_df :: weights_df where
  "test_source_weights_df = range_index [(1, 20), (2, 50)]"

text \<open>The identity of the consensus vendor (line 156) and the consensus rows a table holds
  for a tsid.\<close>

definition consensus_id :: "store \<Rightarrow> source_id" where
  "consensus_id st = retrieve_data_vendor_id st ''pySecMaster_Consensus''"

definition consensus_rows :: "store \<Rightarrow> string \<Rightarrow> tsid \<Rightarrow> price_row list" where
  "consensus_rows st table tsid =
     filter (\<lambda>r. r_tsid r = tsid \<and> r_vendor r = consensus_id st) (prices st table)"

text \<open>No collaborator fails: every period's block is extracted, every delete reports
  success, every append is stored.\<close>

definition no_faults :: "env \<Rightarrow> bool" where
  "no_faults e = ((\<forall>t d. \<not> xs_fails e t d) \<and> (\<forall>t. \<not> delete_fails e t) \<and> (\<forall>t. \<not> append_fails e t))"

subsection \<open>Notions used in the proofs\<close>

text \<open>The rows an append adds to the table.\<close>

definition written :: "env \<Rightarrow> tsid \<Rightarrow> source_id \<Rightarrow> consensus_price_df \<Rightarrow> price_row list" where
  "written e t vid cdf = (if append_fails e t then [] else map (consensus_row t vid) cdf)"

text \<open>
  The rows of a block that vote (their vendor is not excluded), the blocks for which
  all five rounds return (some row votes and every voting row's source resolves), the
  row the rounds yield for a block, and the keys a dictionary has after a list of
  values has been entered.
\<close>

definition voters :: "source_id list \<Rightarrow> price_row list \<Rightarrow> price_row list" where
  "voters excl rows = filter (\<lambda>r. r_vendor r \<notin> set excl) rows"

definition period_values :: "source_id list \<Rightarrow> weights_df \<Rightarrow> price_row list \<Rightarrow> ohlcv" where
  "period_values excl W rows =
     (case period_consensus excl W rows of Inl e \<Rightarrow> (NaN, NaN, NaN, NaN, NaN) | Inr row \<Rightarrow> row)"

definition key_insert :: "price \<Rightarrow> price list \<Rightarrow> price list" where
  "key_insert v ks = (if v \<noteq> NaN \<and> v \<in> set ks then ks else ks @ [v])"

definition votable :: "source_id list \<Rightarrow> weights_df \<Rightarrow> price_row list \<Rightarrow> bool" where
  "votable excl W rows = (voters excl rows \<noteq> [] \<and> (\<forall>r \<in> set (voters excl rows). resolves W (r_vendor r)))"

text \<open>
  For a tsid of a store: its rows other than consensus rows, the consensus row a run
  computes for a date, the condition under which the run returns for the tsid, and the
  stores in which the tsid's consensus rows are already the ones a run computes.
\<close>

definition nc_rows :: "store \<Rightarrow> string \<Rightarrow> tsid \<Rightarrow> price_row list" where
  "nc_rows st table t = voters [consensus_id st] (query_all_tsid_prices st table t)"

definition new_row :: "store \<Rightarrow> string \<Rightarrow> weights_df \<Rightarrow> tsid \<Rightarrow> date \<Rightarrow> price_row" where
  "new_row st table W t d =
     consensus_row t (consensus_id st)
       (d, period_values [consensus_id st] W (xs (nc_rows st table t) d))"

definition votable_tsid :: "store \<Rightarrow> string \<Rightarrow> weights_df \<Rightarrow> tsid \<Rightarrow> bool" where
  "votable_tsid st table W t =
     (r_date ` set (query_all_tsid_prices st table t) \<subseteq> r_date ` set (nc_rows st table t)
      \<and> (\<forall>r \<in> set (nc_rows st table t). resolves W (r_vendor r)))"

definition settled :: "store \<Rightarrow> string \<Rightarrow> weights_df \<Rightarrow> tsid \<Rightarrow> bool" where
  "settled st table W t =
     (votable_tsid st table W t
      \<and> mset (consensus_rows st table t)
          = image_mset (new_row st table W t) (mset_set (r_date ` set (query_all_tsid_prices st table t))))"

subsection \<open>Example stores\<close>

text \<open>
  Vendor 3 is the consensus vendor. \<open>example_weights\<close> resolves sources 1 and 2 (both
  rows carry the label \<open>0\<close>). \<open>example_db\<close> holds two sources for tsid \<open>A\<close> on \<open>d1\<close>,
  one on \<open>d2\<close>, and one row of tsid \<open>B\<close>; \<open>example_db_prior\<close> holds a consensus row of
  an earlier run as well; in \<open>example_db_gap\<close> the period \<open>d2\<close> of \<open>A\<close> has a consensus
  row only.
\<close>

definition example_vendors :: "string \<Rightarrow> source_id" where
  "example_vendors name = (if name = ''pySecMaster_Consensus'' then 3 else 0)"

definition no_faults_env :: env where
  "no_faults_env = \<lparr>xs_fails = (\<lambda>t d. False), delete_fails = (\<lambda>t. False), append_fails = (\<lambda>t. False)\<rparr>"

definition example_weights :: weights_df where
  "example_weights = [((0, 1), 20), ((0, 2), 50)]"

definition example_rows :: "price_row list" where
  "example_rows =
    [\<lparr>r_tsid = ''A'', r_date = ''d1'', r_vendor = 1, r_open = Num 10, r_high = Num 11, r_low = Num 9, r_close = Num 10, r_volume = Num 100\<rparr>,
     \<lparr>r_tsid = ''A'', r_date = ''d1'', r_vendor = 2, r_open = Num 12, r_high = Num 13, r_low = Num 8, r_close = Num 10, r_volume = Num 100\<rparr>,
     \<lparr>r_tsid = ''A'', r_date = ''d2'', r_vendor = 1, r_open = Num 20, r_high = Num 21, r_low = Num 19, r_close = Num 20, r_volume = Num 200\<rparr>,
     \<lparr>r_tsid = ''B'', r_date = ''d1'', r_vendor = 1, r_open = Num 5, r_high = Num 6, r_low = Num 4, r_close = Num 5, r_volume = Num 50\<rparr>]"

definition example_db :: store where
  "example_db = \<lparr>data_vendor = example_vendors, prices = (\<lambda>t. if t = ''daily_prices'' then example_rows else [])\<rparr>"

definition example_db_prior :: store where
  "example_db_prior = \<lparr>data_vendor = example_vendors,
     prices = (\<lambda>t. if t = ''daily_prices'' then
       \<lparr>r_tsid = ''A'', r_date = ''d1'', r_vendor = 3, r_open = Num 11, r_high = Num 11, r_low = Num 11, r_close = Num 11, r_volume = Num 1\<rparr>
       # example_rows else [])\<rparr>"

definition example_after_run :: "price_row list" where
  "example_after_run = example_rows @
    [\<lparr>r_tsid = ''A'', r_date = ''d1'', r_vendor = 3, r_open = Num 12, r_high = Num 13, r_low = Num 9, r_close = Num 10, r_volume = Num 100\<rparr>,
     \<lparr>r_tsid = ''A'', r_date = ''d2'', r_vendor = 3, r_open = Num 20, r_high = Num 21, r_low = Num 19, r_close = Num 20, r_volume = Num 200\<rparr>,
     \<lparr>r_tsid = ''B'', r_date = ''d1'', r_vendor = 3, r_open = Num 5, r_high = Num 6, r_low = Num 4, r_close = Num 5, r_volume = Num 50\<rparr>]"

definition example_db_gap :: store where
  "example_db_gap = \<lparr>data_vendor = example_vendors,
     prices = (\<lambda>t. if t = ''daily_prices'' then
       [\<lparr>r_tsid = ''A'', r_date = ''d1'', r_vendor = 1, r_open = Num 10, r_high = Num 11, r_low = Num 9, r_close = Num 10, r_volume = Num 100\<rparr>,
        \<lparr>r_tsid = ''A'', r_date = ''d2'', r_vendor = 3, r_open = Num 11, r_high = Num 11, r_low = Num 11, r_close = Num 11, r_volume = Num 1\<rparr>,
        \<lparr>r_tsid = ''B'', r_date = ''d1'', r_vendor = 1, r_open = Num 5, r_high = Num 6, r_low = Num 4, r_close = Num 5, r_volume = Num 50\<rparr>]
       else [])\<rparr>"


section \<open>Properties of the voter\<close>

text \<open>
  The three branches of lines 123--148 store the same thing: the weight already held for
  the value (none when the value is no key) plus the source's weight.
\<close>

lemma dict_get_Nil [simp]: "dict_get [] v = None"
  by (cases v) simp_all

lemma vote_source_unfold:
  "vote_source excl W fc sd =
     (if fst sd \<in> set excl then Inr fc
      else case source_weight_0 W (fst sd) of
             Inl e \<Rightarrow> Inl e
           | Inr w \<Rightarrow> Inr (dict_set (snd sd) (support_of fc (snd sd) + w) fc))"
  by (cases "fc = []"; cases "dict_get fc (snd sd)")
     (simp_all add: support_of_def split: sum.splits)

declare vote_source.simps [simp del]

lemma source_weight_0_error: "source_weight_0 W s = Inl e \<Longrightarrow> e = LookupError"
  by (simp add: source_weight_0_def split: option.splits)

lemma resolves_iff: "resolves W s \<longleftrightarrow> (\<exists>w. source_weight_0 W s = Inr w)"
  by (cases "source_weight_0 W s") (simp_all add: resolves_def)

lemma not_resolves_iff: "\<not> resolves W s \<longleftrightarrow> source_weight_0 W s = Inl LookupError"
  by (cases "source_weight_0 W s") (auto simp: resolves_def dest: source_weight_0_error)

lemma no_entries_not_resolves: "weight_entries W s = [] \<Longrightarrow> \<not> resolves W s"
proof -
  assume a: "weight_entries W s = []"
  have "(0, s) \<notin> fst ` set W"
  proof
    assume "(0, s) \<in> fst ` set W"
    then obtain r where "r \<in> set W" "fst r = (0, s)" by auto
    then have "r \<in> set (filter (\<lambda>r. snd (fst r) = s) W)" by simp
    with a show False by (simp add: weight_entries_def)
  qed
  then have "map_of W (0, s) = None" by (simp add: map_of_eq_None_iff)
  then show ?thesis by (simp add: resolves_def source_weight_0_def)
qed

lemma source_loop_surviving:
  "source_loop excl W fc (surviving excl cands) = source_loop excl W fc cands"
  by (induction cands arbitrary: fc) (auto simp: surviving_def vote_source_unfold split: sum.splits)

lemma source_loop_error:
  "source_loop excl W fc cands = Inl e \<Longrightarrow> e = LookupError"
  by (induction cands arbitrary: fc)
     (auto simp: vote_source_unfold split: sum.splits if_splits dest: source_weight_0_error)

lemma source_loop_unresolved:
  "sd \<in> set cands \<Longrightarrow> fst sd \<notin> set excl \<Longrightarrow> \<not> resolves W (fst sd) \<Longrightarrow>
   source_loop excl W fc cands = Inl LookupError"
proof (induction cands arbitrary: fc)
  case Nil
  then show ?case by simp
next
  case (Cons c cands)
  show ?case
  proof (cases "vote_source excl W fc c")
    case (Inl e)
    then have "source_loop excl W fc (c # cands) = Inl e" by simp
    with source_loop_error[of excl W fc "c # cands" e] show ?thesis by simp
  next
    case (Inr fc1)
    have "sd \<noteq> c"
    proof
      assume "sd = c"
      with Cons.prems Inr show False
        by (simp add: vote_source_unfold not_resolves_iff)
    qed
    with Cons.prems have "sd \<in> set cands" by simp
    from Cons.IH[OF this Cons.prems(2,3)] Inr show ?thesis by simp
  qed
qed

lemma source_loop_resolved:
  "\<forall>sd \<in> set (surviving excl cands). resolves W (fst sd) \<Longrightarrow>
   \<exists>fc'. source_loop excl W fc cands = Inr fc'"
proof (induction cands arbitrary: fc)
  case Nil
  then show ?case by simp
next
  case (Cons c cands)
  from Cons.prems have rest: "\<forall>sd \<in> set (surviving excl cands). resolves W (fst sd)"
    by (simp add: surviving_def)
  have "\<exists>fc1. vote_source excl W fc c = Inr fc1"
  proof (cases "fst c \<in> set excl")
    case True
    then show ?thesis by (simp add: vote_source_unfold)
  next
    case False
    with Cons.prems have "resolves W (fst c)" by (simp add: surviving_def)
    then obtain w where "source_weight_0 W (fst c) = Inr w" by (auto simp: resolves_iff)
    with False show ?thesis by (simp add: vote_source_unfold)
  qed
  then obtain fc1 where "vote_source excl W fc c = Inr fc1" by blast
  with Cons.IH[OF rest, of fc1] show ?case by simp
qed

lemma source_loop_Inr_resolves:
  "source_loop excl W fc cands = Inr fc' \<Longrightarrow> sd \<in> set (surviving excl cands) \<Longrightarrow> resolves W (fst sd)"
proof (rule ccontr)
  assume a: "source_loop excl W fc cands = Inr fc'" and b: "sd \<in> set (surviving excl cands)"
    and c: "\<not> resolves W (fst sd)"
  from b have "sd \<in> set cands" "fst sd \<notin> set excl" by (simp_all add: surviving_def)
  from source_loop_unresolved[OF this c, of fc] a show False by simp
qed

lemma dict_set_keys: "fst ` set (dict_set v w fc) = insert v (fst ` set fc)"
  by (cases v) (simp_all add: dom_update)

lemma map_fst_dict_set: "map fst (dict_set v w fc) = key_insert v (map fst fc)"
  by (cases v) (simp_all add: key_insert_def update_keys)

lemma vote_source_keys:
  "vote_source excl W fc sd = Inr fc' \<Longrightarrow>
   fst ` set fc' = fst ` set fc \<union> (if fst sd \<in> set excl then {} else {snd sd})"
proof (cases "fst sd \<in> set excl")
  case True
  assume "vote_source excl W fc sd = Inr fc'"
  with True show ?thesis by (simp add: vote_source_unfold)
next
  case False
  assume "vote_source excl W fc sd = Inr fc'"
  with False obtain w where "fc' = dict_set (snd sd) w fc"
    by (auto simp: vote_source_unfold split: sum.splits)
  with False show ?thesis by (simp add: dict_set_keys)
qed

lemma source_loop_keys:
  "source_loop excl W fc cands = Inr fc' \<Longrightarrow>
   fst ` set fc' = fst ` set fc \<union> snd ` set (surviving excl cands)"
proof (induction cands arbitrary: fc)
  case Nil
  then show ?case by (simp add: surviving_def)
next
  case (Cons sd cands)
  from Cons.prems obtain fc1 where 1: "vote_source excl W fc sd = Inr fc1"
    and 2: "source_loop excl W fc1 cands = Inr fc'"
    by (auto split: sum.splits)
  from Cons.IH[OF 2] vote_source_keys[OF 1] show ?case
    by (auto simp: surviving_def)
qed

lemma vote_source_key_list:
  "vote_source excl W fc sd = Inr fc' \<Longrightarrow>
   map fst fc' = (if fst sd \<in> set excl then map fst fc else key_insert (snd sd) (map fst fc))"
  by (auto simp: vote_source_unfold map_fst_dict_set split: if_splits sum.splits)

text \<open>The keys of the support map depend on the surviving values only, not on the weights.\<close>

lemma source_loop_key_list:
  "source_loop excl W fc cands = Inr fc' \<Longrightarrow>
   map fst fc' = fold key_insert (map snd (surviving excl cands)) (map fst fc)"
proof (induction cands arbitrary: fc)
  case Nil
  then show ?case by (simp add: surviving_def)
next
  case (Cons sd cands)
  from Cons.prems obtain fc1 where 1: "vote_source excl W fc sd = Inr fc1"
    and 2: "source_loop excl W fc1 cands = Inr fc'"
    by (auto split: sum.splits)
  from Cons.IH[OF 2] vote_source_key_list[OF 1] show ?case
    by (simp add: surviving_def)
qed

text \<open>What \<open>max\<close> returns: NaN when the first item is NaN, since nothing compares greater
  than NaN; otherwise the largest number, since NaN compares greater than nothing.\<close>

lemma fold_max_NaN: "fold (\<lambda>item m. if price_gt item m then item else m) ys NaN = NaN"
  by (induction ys) simp_all

lemma fold_max_Num:
  "fold (\<lambda>item m. if price_gt item m then item else m) ys (Num a) = Num (Max (set (a # numbers ys)))"
proof (induction ys arbitrary: a)
  case Nil
  then show ?case by simp
next
  case (Cons y ys)
  show ?case
  proof (cases y)
    case NaN
    with Cons.IH[of a] show ?thesis by simp
  next
    case (Num b)
    have "fold max (numbers ys) (max a b) = fold max (b # numbers ys) a"
      by (simp add: max.commute)
    then have m: "Max (set (max a b # numbers ys)) = Max (set (a # b # numbers ys))"
      by (simp only: Max.set_eq_fold)
    show ?thesis
    proof (cases "b > a")
      case True
      then have "max a b = b" by simp
      with m Num True Cons.IH[of b] show ?thesis by simp
    next
      case False
      then have "max a b = a" by simp
      with m Num False Cons.IH[of a] show ?thesis by simp
    qed
  qed
qed

lemma py_max_char:
  "ys \<noteq> [] \<Longrightarrow>
   py_max ys = Inr (if hd ys = NaN then NaN else Num (Max (set (numbers ys))))"
proof (cases ys)
  case Nil
  assume "ys \<noteq> []"
  with Nil show ?thesis by simp
next
  case (Cons y list)
  then show ?thesis by (cases y) (simp_all add: fold_max_NaN fold_max_Num)
qed

lemma consensus_value_char: "fc \<noteq> [] \<Longrightarrow> consensus_value fc = Inr (first_nan_or_largest fc)"
  using py_max_char[of "map fst fc"]
  by (simp add: consensus_value_def first_nan_or_largest_def hd_map)

lemma field_vote_eq:
  assumes "\<forall>sd \<in> set (surviving excl cands). resolves W (fst sd)"
  shows "field_vote excl W cands = py_max (fold key_insert (map snd (surviving excl cands)) [])"
proof -
  from source_loop_resolved[OF assms, of "[]"] obtain fc
    where fc: "source_loop excl W [] cands = Inr fc" by blast
  from source_loop_key_list[OF fc] fc show ?thesis
    by (simp add: field_vote_def consensus_value_def)
qed

lemma field_vote_unresolved:
  "sd \<in> set cands \<Longrightarrow> fst sd \<notin> set excl \<Longrightarrow> \<not> resolves W (fst sd) \<Longrightarrow>
   field_vote excl W cands = Inl LookupError"
  by (simp add: field_vote_def source_loop_unresolved)

lemma support_of_dict_set:
  "support_of (dict_set k a fc) (Num x) = (if k = Num x then a else support_of fc (Num x))"
  by (cases k) (auto simp: support_of_def update_conv' map_add_def split: option.splits)

lemma support_of_update:
  "support_of (AList.update (Num y) a fc) (Num x) = (if x = y then a else support_of fc (Num x))"
  using support_of_dict_set[of "Num y" a fc x] by simp

text \<open>
  When the round returns, the weight the support map holds for a number is the sum of
  the weights the lookups returned for the surviving sources that reported it.
\<close>

lemma source_loop_support:
  "source_loop excl W fc cands = Inr fc' \<Longrightarrow>
   support_of fc' (Num x) = support_of fc (Num x) +
     sum_list (map (\<lambda>sd. weight_of W (fst sd)) (filter (\<lambda>sd. snd sd = Num x) (surviving excl cands)))"
proof (induction cands arbitrary: fc)
  case Nil
  then show ?case by (simp add: surviving_def)
next
  case (Cons c cands)
  from Cons.prems obtain fc1 where 1: "vote_source excl W fc c = Inr fc1"
    and 2: "source_loop excl W fc1 cands = Inr fc'"
    by (auto split: sum.splits)
  have "support_of fc1 (Num x) = support_of fc (Num x) +
      (if fst c \<notin> set excl \<and> snd c = Num x then weight_of W (fst c) else 0)"
  proof (cases "fst c \<in> set excl")
    case True
    with 1 show ?thesis by (simp add: vote_source_unfold)
  next
    case False
    with 1 obtain w where w: "source_weight_0 W (fst c) = Inr w"
      and fc1: "fc1 = dict_set (snd c) (support_of fc (snd c) + w) fc"
      by (auto simp: vote_source_unfold split: sum.splits)
    have "support_of fc1 (Num x)
        = (if snd c = Num x then support_of fc (snd c) + w else support_of fc (Num x))"
      unfolding fc1 by (rule support_of_dict_set)
    with False w show ?thesis by (simp add: weight_of_def)
  qed
  with Cons.IH[OF 2] show ?case by (simp add: surviving_def add.assoc)
qed

section \<open>Properties of the assembler and of the persistence step\<close>

text \<open>The equations that evaluate a run on the example stores.\<close>

lemmas example_simps = cross_validate_def source_exclude_list_def retrieve_data_vendor_id_def
  validate_tsid_def query_all_tsid_prices_def xs_def period_consensus_def field_vote_def
  field_data_def consensus_value_def vote_source.simps source_weight_0_def Let_def
  finally_block_def
  delete_sql_table_rows_def df_to_sql_def consensus_row_def example_vendors_def
  no_faults_env_def example_weights_def example_rows_def example_db_def
  example_db_prior_def example_after_run_def example_db_gap_def

lemma set_unique [simp]: "set (unique ys) = set ys"
  by (induction ys rule: unique.induct) auto

lemma distinct_unique [simp]: "distinct (unique ys)"
  by (induction ys rule: unique.induct) auto

lemma consensus_row_sel [simp]:
  "r_tsid (consensus_row t vid dr) = t"
  "r_vendor (consensus_row t vid dr) = vid"
  "r_date (consensus_row t vid dr) = fst dr"
  by (simp_all add: consensus_row_def split: prod.splits)

lemma finally_block_By_vendor:
  "finally_block excl W d (By_vendor p) cdf =
     (case period_consensus excl W p of
        Inl err \<Rightarrow> Inl err
      | Inr row \<Rightarrow> Inr (By_field p, AList.update d row cdf))"
  by (simp add: finally_block_def)

lemma finally_block_distinct:
  "finally_block excl W d frame cdf = Inr (frame', cdf') \<Longrightarrow> distinct (map fst cdf) \<Longrightarrow>
   distinct (map fst cdf')"
  by (cases frame)
     (auto simp: finally_block_def distinct_update split: sum.splits list.splits)

lemma date_loop_distinct:
  "date_loop e excl W t df ds (p, cdf) = Inr (p', cdf') \<Longrightarrow> distinct (map fst cdf) \<Longrightarrow>
   distinct (map fst cdf')"
proof (induction ds arbitrary: p cdf)
  case Nil
  then show ?case by simp
next
  case (Cons d ds)
  from Cons.prems(1) obtain frame frame' cdf1 where
    f: "finally_block excl W d frame cdf = Inr (frame', cdf1)"
    and l: "date_loop e excl W t df ds (Some frame', cdf1) = Inr (p', cdf')"
    by (auto split: option.splits sum.splits if_splits)
  from Cons.IH[OF l] finally_block_distinct[OF f Cons.prems(2)] show ?case by simp
qed

lemma validate_tsid_cases:
  assumes "validate_tsid e table W excl t (st, p) = Inr (st', p')"
  obtains cdf where
    "date_loop e excl W t (query_all_tsid_prices st table t)
       (unique (map r_date (query_all_tsid_prices st table t))) (p, []) = Inr (p', cdf)"
    "st' = (if consensus_id st \<in> r_vendor ` set (query_all_tsid_prices st table t)
            then (if delete_fails e t then st
                  else df_to_sql e (snd (delete_sql_table_rows e st table t (consensus_id st))) table t (consensus_id st) cdf)
            else df_to_sql e st table t (consensus_id st) cdf)"
proof -
  let ?df = "query_all_tsid_prices st table t"
  from assms obtain p1 cdf where dl:
    "date_loop e excl W t ?df (unique (map r_date ?df)) (p, []) = Inr (p1, cdf)"
    by (auto simp: validate_tsid_def Let_def split: sum.splits)
  with assms have "p1 = p'"
    by (auto simp: validate_tsid_def Let_def delete_sql_table_rows_def split: if_splits)
  moreover from assms dl have
    "st' = (if consensus_id st \<in> r_vendor ` set ?df
            then (if delete_fails e t then st
                  else df_to_sql e (snd (delete_sql_table_rows e st table t (consensus_id st))) table t (consensus_id st) cdf)
            else df_to_sql e st table t (consensus_id st) cdf)"
    by (auto simp: validate_tsid_def Let_def delete_sql_table_rows_def consensus_id_def split: if_splits)
  ultimately show ?thesis using that dl by blast
qed

lemma filter_not_consensus_id:
  "vid \<notin> r_vendor ` set (filter (\<lambda>r. r_tsid r = t) T) \<Longrightarrow>
   filter (\<lambda>r. \<not> (r_tsid r = t \<and> r_vendor r = vid)) T = T"
  by (rule filter_True) auto

lemma validate_tsid_store:
  assumes "validate_tsid e table W excl t (st, p) = Inr (st', p')"
  obtains cdf where
    "date_loop e excl W t (query_all_tsid_prices st table t)
       (unique (map r_date (query_all_tsid_prices st table t))) (p, []) = Inr (p', cdf)"
    "data_vendor st' = data_vendor st"
    "\<And>tb. tb \<noteq> table \<Longrightarrow> prices st' tb = prices st tb"
    "prices st' table =
       (if consensus_id st \<in> r_vendor ` set (query_all_tsid_prices st table t) \<and> delete_fails e t
        then prices st table
        else filter (\<lambda>r. \<not> (r_tsid r = t \<and> r_vendor r = consensus_id st)) (prices st table)
             @ written e t (consensus_id st) cdf)"
proof -
  from assms obtain cdf where dl:
    "date_loop e excl W t (query_all_tsid_prices st table t)
       (unique (map r_date (query_all_tsid_prices st table t))) (p, []) = Inr (p', cdf)"
    and st': "st' = (if consensus_id st \<in> r_vendor ` set (query_all_tsid_prices st table t)
            then (if delete_fails e t then st
                  else df_to_sql e (snd (delete_sql_table_rows e st table t (consensus_id st))) table t (consensus_id st) cdf)
            else df_to_sql e st table t (consensus_id st) cdf)"
    by (rule validate_tsid_cases)
  have 1: "data_vendor st' = data_vendor st"
    by (simp add: st' df_to_sql_def delete_sql_table_rows_def)
  have 2: "\<And>tb. tb \<noteq> table \<Longrightarrow> prices st' tb = prices st tb"
    by (simp add: st' df_to_sql_def delete_sql_table_rows_def)
  have 3: "prices st' table =
       (if consensus_id st \<in> r_vendor ` set (query_all_tsid_prices st table t) \<and> delete_fails e t
        then prices st table
        else filter (\<lambda>r. \<not> (r_tsid r = t \<and> r_vendor r = consensus_id st)) (prices st table)
             @ written e t (consensus_id st) cdf)"
  proof (cases "consensus_id st \<in> r_vendor ` set (query_all_tsid_prices st table t)")
    case True
    then show ?thesis
      by (simp add: st' df_to_sql_def delete_sql_table_rows_def written_def)
  next
    case False
    then have "filter (\<lambda>r. \<not> (r_tsid r = t \<and> r_vendor r = consensus_id st)) (prices st table)
       = prices st table"
      by (intro filter_not_consensus_id) (simp add: query_all_tsid_prices_def)
    with False show ?thesis
      by (simp add: st' df_to_sql_def written_def)
  qed
  from that[OF dl 1 2 3] show ?thesis .
qed

lemma consensus_id_validate:
  "validate_tsid e table W excl t (st, p) = Inr (st', p') \<Longrightarrow> consensus_id st' = consensus_id st"
  by (erule validate_tsid_store) (simp add: consensus_id_def retrieve_data_vendor_id_def)

lemma filter_written_other:
  "t' \<noteq> t \<Longrightarrow> filter (\<lambda>r. r_tsid r = t') (written e t vid cdf) = []"
  by (simp add: written_def)

lemma validate_tsid_other:
  assumes "validate_tsid e table W excl t (st, p) = Inr (st', p')" and "t' \<noteq> t"
  shows "query_all_tsid_prices st' table t' = query_all_tsid_prices st table t'"
proof -
  from assms(1) obtain cdf where
    pr: "prices st' table =
       (if consensus_id st \<in> r_vendor ` set (query_all_tsid_prices st table t) \<and> delete_fails e t
        then prices st table
        else filter (\<lambda>r. \<not> (r_tsid r = t \<and> r_vendor r = consensus_id st)) (prices st table)
             @ written e t (consensus_id st) cdf)"
    by (rule validate_tsid_store)
  have "filter (\<lambda>r. r_tsid r = t') (filter (\<lambda>r. \<not> (r_tsid r = t \<and> r_vendor r = consensus_id st)) (prices st table))
      = filter (\<lambda>r. r_tsid r = t') (prices st table)"
    using assms(2) by (auto intro: filter_cong)
  with assms(2) show ?thesis
    by (simp add: query_all_tsid_prices_def pr filter_written_other)
qed

lemma consensus_rows_query:
  "consensus_rows st table t = filter (\<lambda>r. r_vendor r = consensus_id st) (query_all_tsid_prices st table t)"
  by (auto simp: consensus_rows_def query_all_tsid_prices_def intro: filter_cong)

lemma validate_tsid_other_consensus:
  assumes "validate_tsid e table W excl t (st, p) = Inr (st', p')" and "t' \<noteq> t"
  shows "consensus_rows st' table t' = consensus_rows st table t'"
  by (simp add: consensus_rows_query validate_tsid_other[OF assms] consensus_id_validate[OF assms(1)])

lemma validate_tsid_supersedes:
  assumes "validate_tsid e table W excl t (st, p) = Inr (st', p')" and "\<not> delete_fails e t"
  shows "distinct (map r_date (consensus_rows st' table t))"
proof -
  from assms(1) obtain cdf where
    dl: "date_loop e excl W t (query_all_tsid_prices st table t)
       (unique (map r_date (query_all_tsid_prices st table t))) (p, []) = Inr (p', cdf)"
    and pr: "prices st' table =
       (if consensus_id st \<in> r_vendor ` set (query_all_tsid_prices st table t) \<and> delete_fails e t
        then prices st table
        else filter (\<lambda>r. \<not> (r_tsid r = t \<and> r_vendor r = consensus_id st)) (prices st table)
             @ written e t (consensus_id st) cdf)"
    by (rule validate_tsid_store)
  from date_loop_distinct[OF dl] have d: "distinct (map fst cdf)" by simp
  have w: "filter (\<lambda>r. r_tsid r = t \<and> r_vendor r = consensus_id st) (written e t (consensus_id st) cdf)
        = written e t (consensus_id st) cdf"
    by (simp add: written_def)
  have "consensus_rows st' table t = written e t (consensus_id st) cdf"
    using assms(2) by (simp add: consensus_rows_def consensus_id_validate[OF assms(1)] pr w)
  moreover have "map r_date (written e t (consensus_id st) cdf) = (if append_fails e t then [] else map fst cdf)"
    by (simp add: written_def)
  ultimately show ?thesis using d by simp
qed

lemma tsid_loop_preserves:
  assumes "tsid_loop e table W excl ts (st, p) = Inr (st', p')" and "t \<notin> set ts"
  shows "consensus_rows st' table t = consensus_rows st table t"
  using assms
proof (induction ts arbitrary: st p)
  case Nil
  then show ?case by simp
next
  case (Cons a ts)
  from Cons.prems(1) obtain st1 p1 where
    v: "validate_tsid e table W excl a (st, p) = Inr (st1, p1)"
    and l: "tsid_loop e table W excl ts (st1, p1) = Inr (st', p')"
    by (auto split: sum.splits)
  from Cons.prems(2) have "t \<noteq> a" "t \<notin> set ts" by auto
  with Cons.IH[OF l] validate_tsid_other_consensus[OF v] show ?case by simp
qed

lemma tsid_loop_supersedes:
  assumes "tsid_loop e table W excl ts (st, p) = Inr (st', p')" and "t \<in> set ts"
    and "\<not> delete_fails e t"
  shows "distinct (map r_date (consensus_rows st' table t))"
  using assms(1,2)
proof (induction ts arbitrary: st p)
  case Nil
  then show ?case by simp
next
  case (Cons a ts)
  from Cons.prems(1) obtain st1 p1 where
    v: "validate_tsid e table W excl a (st, p) = Inr (st1, p1)"
    and l: "tsid_loop e table W excl ts (st1, p1) = Inr (st', p')"
    by (auto split: sum.splits)
  show ?case
  proof (cases "t \<in> set ts")
    case True
    from Cons.IH[OF l True] show ?thesis .
  next
    case False
    with Cons.prems(2) have "a = t" by simp
    with v assms(3) have "distinct (map r_date (consensus_rows st1 table t))"
      by (simp add: validate_tsid_supersedes)
    with tsid_loop_preserves[OF l False] show ?thesis by simp
  qed
qed

lemma field_vote_Inr:
  assumes "field_vote excl W c = Inr v"
  shows "surviving excl c \<noteq> [] \<and> (\<forall>sd \<in> set (surviving excl c). resolves W (fst sd))"
proof -
  from assms obtain fc where fc: "source_loop excl W [] c = Inr fc"
    and cv: "consensus_value fc = Inr v"
    by (auto simp: field_vote_def split: sum.splits)
  from fc have r: "\<forall>sd \<in> set (surviving excl c). resolves W (fst sd)"
    by (auto dest: source_loop_Inr_resolves)
  from cv have "fc \<noteq> []" by (auto simp: consensus_value_def)
  with source_loop_keys[OF fc] have "surviving excl c \<noteq> []" by auto
  with r show ?thesis by simp
qed

lemma surviving_field_data:
  "surviving excl (field_data f p) = field_data f (voters excl p)"
  by (simp add: surviving_def field_data_def voters_def filter_map comp_def)

lemma set_surviving_field_data:
  "set (surviving excl (field_data f p)) = (\<lambda>r. (r_vendor r, f r)) ` set (voters excl p)"
  unfolding surviving_field_data by (simp add: field_data_def)

lemma surviving_field_data_Nil:
  "surviving excl (field_data f p) = [] \<longleftrightarrow> voters excl p = []"
  unfolding surviving_field_data by (simp add: field_data_def)

lemma field_vote_votable:
  assumes "votable excl W p"
  shows "\<exists>v. field_vote excl W (field_data f p) = Inr v"
proof -
  from assms have r: "\<forall>sd \<in> set (surviving excl (field_data f p)). resolves W (fst sd)"
    by (simp add: set_surviving_field_data votable_def)
  from source_loop_resolved[OF r, of "[]"] obtain fc
    where fc: "source_loop excl W [] (field_data f p) = Inr fc" by blast
  from assms have "surviving excl (field_data f p) \<noteq> []"
    by (simp add: surviving_field_data_Nil votable_def)
  with source_loop_keys[OF fc] have "fc \<noteq> []" by auto
  with fc show ?thesis by (simp add: field_vote_def consensus_value_char)
qed

lemma period_consensus_votable:
  assumes "votable excl W p"
  shows "period_consensus excl W p = Inr (period_values excl W p)"
proof -
  from field_vote_votable[OF assms] obtain v1 v2 v3 v4 v5 where
    "field_vote excl W (field_data r_open p) = Inr v1"
    "field_vote excl W (field_data r_high p) = Inr v2"
    "field_vote excl W (field_data r_low p) = Inr v3"
    "field_vote excl W (field_data r_close p) = Inr v4"
    "field_vote excl W (field_data r_volume p) = Inr v5"
    by metis
  then have "period_consensus excl W p = Inr (v1, v2, v3, v4, v5)"
    by (simp add: period_consensus_def)
  then show ?thesis by (simp add: period_values_def)
qed

lemma period_consensus_Inr:
  assumes "period_consensus excl W p = Inr row"
  shows "votable excl W p \<and> row = period_values excl W p"
proof -
  from assms obtain v where "field_vote excl W (field_data r_open p) = Inr v"
    by (auto simp: period_consensus_def split: sum.splits)
  from field_vote_Inr[OF this] have "votable excl W p"
    by (simp add: set_surviving_field_data surviving_field_data_Nil votable_def)
  with assms show ?thesis by (simp add: period_values_def)
qed

text \<open>The rounds of a period see the voting rows only, in their order.\<close>

lemma field_vote_voters:
  "field_vote excl W (field_data f (voters excl p)) = field_vote excl W (field_data f p)"
  using source_loop_surviving[of excl W "[]" "field_data f p"]
  by (simp add: field_vote_def surviving_field_data)

lemma period_consensus_voters:
  "period_consensus excl W (voters excl p) = period_consensus excl W p"
  unfolding period_consensus_def field_vote_voters by (rule refl)

lemma period_values_voters:
  "period_values excl W (voters excl p) = period_values excl W p"
  by (simp add: period_values_def period_consensus_voters)

lemma update_fresh:
  "k \<notin> fst ` set al \<Longrightarrow> AList.update k v al = al @ [(k, v)]"
  by (induction al) auto

lemma date_loop_no_faults:
  assumes "\<forall>d. \<not> xs_fails e t d" and "\<forall>d \<in> set ds. votable excl W (xs df d)"
    and "distinct ds" and "set ds \<inter> fst ` set cdf = {}"
  shows "\<exists>p'. date_loop e excl W t df ds (p, cdf)
           = Inr (p', cdf @ map (\<lambda>d. (d, period_values excl W (xs df d))) ds)"
  using assms(2-4)
proof (induction ds arbitrary: p cdf)
  case Nil
  then show ?case by simp
next
  case (Cons d ds)
  let ?row = "period_values excl W (xs df d)"
  from Cons.prems have v: "period_consensus excl W (xs df d) = Inr ?row"
    by (simp add: period_consensus_votable)
  from Cons.prems have fresh: "d \<notin> fst ` set cdf" by auto
  have "set ds \<inter> fst ` set (cdf @ [(d, ?row)]) = {}"
    using Cons.prems by auto
  with Cons.IH[of "cdf @ [(d, ?row)]" "Some (By_field (xs df d))"] Cons.prems
  obtain p' where "date_loop e excl W t df ds (Some (By_field (xs df d)), cdf @ [(d, ?row)])
      = Inr (p', (cdf @ [(d, ?row)]) @ map (\<lambda>d. (d, period_values excl W (xs df d))) ds)"
    by auto
  with v assms(1) fresh show ?case by (simp add: update_fresh finally_block_By_vendor)
qed

lemma date_loop_Inr_no_faults:
  assumes "\<forall>d. \<not> xs_fails e t d" and "date_loop e excl W t df ds (p, cdf) = Inr (p', cdf')"
  shows "\<forall>d \<in> set ds. votable excl W (xs df d)"
  using assms(2)
proof (induction ds arbitrary: p cdf)
  case Nil
  then show ?case by simp
next
  case (Cons d ds)
  from Cons.prems assms(1) obtain row where
    r: "period_consensus excl W (xs df d) = Inr row"
    and l: "date_loop e excl W t df ds (Some (By_field (xs df d)), AList.update d row cdf) = Inr (p', cdf')"
    by (auto simp: finally_block_By_vendor split: sum.splits)
  from period_consensus_Inr[OF r] Cons.IH[OF l] show ?case by simp
qed

lemma voters_xs: "voters excl (xs df d) = xs (voters excl df) d"
  by (auto simp: voters_def xs_def intro: filter_cong)

lemma xs_Nil_iff: "xs rows d = [] \<longleftrightarrow> d \<notin> r_date ` set rows"
  by (auto simp: xs_def filter_empty_conv)

lemma set_xs: "set (xs rows d) = {r \<in> set rows. r_date r = d}"
  by (auto simp: xs_def)

lemma votable_tsid_iff:
  "votable_tsid st table W t \<longleftrightarrow>
   (\<forall>d \<in> r_date ` set (query_all_tsid_prices st table t).
      votable [consensus_id st] W (xs (query_all_tsid_prices st table t) d))"
  (is "?L \<longleftrightarrow> ?R")
proof
  assume ?L
  then show ?R
    by (auto simp: votable_tsid_def votable_def voters_xs xs_Nil_iff set_xs nc_rows_def)
next
  assume r: ?R
  let ?df = "query_all_tsid_prices st table t"
  have a: "r_date ` set ?df \<subseteq> r_date ` set (nc_rows st table t)"
  proof
    fix d assume "d \<in> r_date ` set ?df"
    with r have "votable [consensus_id st] W (xs ?df d)" by blast
    then have "xs (nc_rows st table t) d \<noteq> []"
      by (simp add: votable_def voters_xs nc_rows_def)
    then show "d \<in> r_date ` set (nc_rows st table t)" by (simp add: xs_Nil_iff)
  qed
  have b: "\<forall>x \<in> set (nc_rows st table t). resolves W (r_vendor x)"
  proof
    fix x assume x: "x \<in> set (nc_rows st table t)"
    then have "x \<in> set ?df" by (simp add: nc_rows_def voters_def)
    then have "r_date x \<in> r_date ` set ?df" by simp
    with r have "votable [consensus_id st] W (xs ?df (r_date x))" by blast
    moreover from x have "x \<in> set (voters [consensus_id st] (xs ?df (r_date x)))"
      by (simp add: voters_xs set_xs nc_rows_def)
    ultimately show "resolves W (r_vendor x)" by (simp add: votable_def)
  qed
  from a b show ?L by (simp add: votable_tsid_def)
qed

lemma validate_tsid_no_faults:
  assumes nf: "no_faults e" and vt: "votable_tsid st table W t"
  shows "\<exists>st' p'. validate_tsid e table W [consensus_id st] t (st, p) = Inr (st', p')"
proof -
  let ?df = "query_all_tsid_prices st table t"
  from nf have x: "\<forall>d. \<not> xs_fails e t d" by (simp add: no_faults_def)
  from vt have "\<forall>d \<in> set (unique (map r_date ?df)). votable [consensus_id st] W (xs ?df d)"
    by (simp add: votable_tsid_iff)
  from date_loop_no_faults[OF x this, of "[]" p] obtain p' cdf where
    "date_loop e [consensus_id st] W t ?df (unique (map r_date ?df)) (p, []) = Inr (p', cdf)"
    by auto
  then show ?thesis
    by (simp add: validate_tsid_def Let_def delete_sql_table_rows_def split: prod.splits status.splits)
qed

lemma validate_tsid_no_faults_Inr:
  assumes nf: "no_faults e"
    and v: "validate_tsid e table W [consensus_id st] t (st, p) = Inr (st', p')"
  shows "votable_tsid st table W t"
    and "prices st' table =
          filter (\<lambda>r. \<not> (r_tsid r = t \<and> r_vendor r = consensus_id st)) (prices st table)
          @ map (new_row st table W t) (unique (map r_date (query_all_tsid_prices st table t)))"
proof -
  let ?df = "query_all_tsid_prices st table t"
  let ?ds = "unique (map r_date ?df)"
  from nf have x: "\<forall>d. \<not> xs_fails e t d" and dl: "\<not> delete_fails e t" and ap: "\<not> append_fails e t"
    by (simp_all add: no_faults_def)
  from v obtain cdf where
    c: "date_loop e [consensus_id st] W t ?df ?ds (p, []) = Inr (p', cdf)"
    and pr: "prices st' table =
       (if consensus_id st \<in> r_vendor ` set ?df \<and> delete_fails e t
        then prices st table
        else filter (\<lambda>r. \<not> (r_tsid r = t \<and> r_vendor r = consensus_id st)) (prices st table)
             @ written e t (consensus_id st) cdf)"
    by (rule validate_tsid_store)
  from date_loop_Inr_no_faults[OF x c]
  have vo: "\<forall>d \<in> set ?ds. votable [consensus_id st] W (xs ?df d)" .
  then show "votable_tsid st table W t" by (simp add: votable_tsid_iff)
  from date_loop_no_faults[OF x vo, of "[]" p] c
  have "cdf = map (\<lambda>d. (d, period_values [consensus_id st] W (xs ?df d))) ?ds" by auto
  moreover have "period_values [consensus_id st] W (xs (nc_rows st table t) d)
      = period_values [consensus_id st] W (xs ?df d)" for d
    using period_values_voters[of "[consensus_id st]" W "xs ?df d"]
    by (simp add: nc_rows_def voters_xs)
  ultimately have "written e t (consensus_id st) cdf = map (new_row st table W t) ?ds"
    using ap by (simp add: written_def new_row_def comp_def)
  with pr dl show "prices st' table =
          filter (\<lambda>r. \<not> (r_tsid r = t \<and> r_vendor r = consensus_id st)) (prices st table)
          @ map (new_row st table W t) ?ds" by simp
qed

lemma settled_cong:
  assumes "query_all_tsid_prices st' table t = query_all_tsid_prices st table t"
    and "consensus_id st' = consensus_id st"
  shows "settled st' table W t = settled st table W t"
proof -
  have nc: "nc_rows st' table t = nc_rows st table t"
    by (simp add: nc_rows_def assms)
  have "new_row st' table W t = new_row st table W t"
    by (simp add: fun_eq_iff new_row_def nc assms)
  with nc show ?thesis
    by (simp add: settled_def votable_tsid_def consensus_rows_query assms)
qed

lemma validate_tsid_settles:
  assumes nf: "no_faults e"
    and v: "validate_tsid e table W [consensus_id st] t (st, p) = Inr (st', p')"
  shows "settled st' table W t"
proof -
  let ?df = "query_all_tsid_prices st table t"
  let ?ds = "unique (map r_date ?df)"
  let ?vid = "consensus_id st"
  from validate_tsid_no_faults_Inr[OF nf v]
  have vt: "votable_tsid st table W t"
    and pr: "prices st' table =
          filter (\<lambda>r. \<not> (r_tsid r = t \<and> r_vendor r = ?vid)) (prices st table)
          @ map (new_row st table W t) ?ds" by simp_all
  have cid: "consensus_id st' = ?vid" by (rule consensus_id_validate[OF v])
  have q: "query_all_tsid_prices st' table t = nc_rows st table t @ map (new_row st table W t) ?ds"
    by (auto simp: query_all_tsid_prices_def pr nc_rows_def voters_def new_row_def
        intro: filter_cong)
  have nc: "nc_rows st' table t = nc_rows st table t"
    unfolding nc_rows_def[of st'] q cid
    by (simp add: voters_def new_row_def) (simp add: nc_rows_def voters_def)
  have nr: "new_row st' table W t = new_row st table W t"
    by (simp add: fun_eq_iff new_row_def nc cid)
  have cr: "consensus_rows st' table t = map (new_row st table W t) ?ds"
    unfolding consensus_rows_query q cid
    by (simp add: new_row_def nc_rows_def voters_def)
  have dnew: "r_date ` set (map (new_row st table W t) ?ds) = r_date ` set ?df"
    by (simp add: image_image new_row_def)
  have "r_date ` set (nc_rows st table t) \<subseteq> r_date ` set ?df"
    by (auto simp: nc_rows_def voters_def)
  with dnew have dates: "r_date ` set (query_all_tsid_prices st' table t) = r_date ` set ?df"
    unfolding q by (simp add: image_Un) blast
  from vt have vt': "votable_tsid st' table W t"
    by (simp add: votable_tsid_def nc dates)
  have "mset_set (r_date ` set ?df) = mset ?ds"
    using mset_set_set[OF distinct_unique, of "map r_date ?df"] by simp
  then have "mset (consensus_rows st' table t)
      = image_mset (new_row st' table W t) (mset_set (r_date ` set (query_all_tsid_prices st' table t)))"
    by (simp add: cr nr dates)
  with vt' show ?thesis by (simp add: settled_def)
qed

lemma validate_tsid_settled_other:
  assumes v: "validate_tsid e table W excl t (st, p) = Inr (st', p')" and "t' \<noteq> t"
  shows "settled st' table W t' = settled st table W t'"
  by (rule settled_cong) (simp_all add: validate_tsid_other[OF assms] consensus_id_validate[OF v])

lemma validate_tsid_settled:
  assumes nf: "no_faults e" and s: "settled st table W t"
  shows "\<exists>st' p'. validate_tsid e table W [consensus_id st] t (st, p) = Inr (st', p')
           \<and> mset (prices st' table) = mset (prices st table)"
proof -
  let ?df = "query_all_tsid_prices st table t"
  let ?ds = "unique (map r_date ?df)"
  let ?P = "\<lambda>r. r_tsid r = t \<and> r_vendor r = consensus_id st"
  from s have vt: "votable_tsid st table W t" by (simp add: settled_def)
  from validate_tsid_no_faults[OF nf vt, of p] obtain st' p' where
    v: "validate_tsid e table W [consensus_id st] t (st, p) = Inr (st', p')" by blast
  from validate_tsid_no_faults_Inr(2)[OF nf v]
  have pr: "prices st' table = filter (\<lambda>r. \<not> ?P r) (prices st table) @ map (new_row st table W t) ?ds" .
  have ms: "mset_set (r_date ` set ?df) = mset ?ds"
    using mset_set_set[OF distinct_unique, of "map r_date ?df"] by simp
  have "mset (map (new_row st table W t) ?ds) = image_mset (new_row st table W t) (mset_set (r_date ` set ?df))"
    by (simp add: ms)
  also have "\<dots> = mset (consensus_rows st table t)"
    using s by (simp add: settled_def)
  also have "\<dots> = mset (filter ?P (prices st table))"
    by (simp add: consensus_rows_def)
  finally have "mset (prices st' table)
      = mset (filter (\<lambda>r. \<not> ?P r) (prices st table)) + mset (filter ?P (prices st table))"
    by (simp add: pr)
  also have "\<dots> = mset (prices st table)"
    by (simp only: mset_filter) (simp add: union_commute)
  finally show ?thesis using v by blast
qed

lemma tsid_loop_settles:
  assumes nf: "no_faults e"
  shows "tsid_loop e table W [consensus_id st] ts (st, p) = Inr (st', p') \<Longrightarrow>
         (\<forall>t \<in> S. settled st table W t) \<Longrightarrow> \<forall>t \<in> S \<union> set ts. settled st' table W t"
proof (induction ts arbitrary: st p S)
  case Nil
  then show ?case by simp
next
  case (Cons a ts)
  from Cons.prems(1) obtain st1 p1 where
    v: "validate_tsid e table W [consensus_id st] a (st, p) = Inr (st1, p1)"
    and l: "tsid_loop e table W [consensus_id st] ts (st1, p1) = Inr (st', p')"
    by (auto split: sum.splits)
  have cid: "consensus_id st1 = consensus_id st" by (rule consensus_id_validate[OF v])
  have "\<forall>t \<in> insert a S. settled st1 table W t"
  proof
    fix t assume t: "t \<in> insert a S"
    show "settled st1 table W t"
    proof (cases "t = a")
      case True
      with validate_tsid_settles[OF nf v] show ?thesis by simp
    next
      case False
      with t Cons.prems(2) validate_tsid_settled_other[OF v False] show ?thesis by simp
    qed
  qed
  with Cons.IH[of st1 p1 "insert a S"] l cid show ?case by simp
qed

lemma tsid_loop_settled:
  assumes nf: "no_faults e"
  shows "(\<forall>t \<in> S. settled st table W t) \<Longrightarrow> set ts \<subseteq> S \<Longrightarrow>
         \<exists>st' p'. tsid_loop e table W [consensus_id st] ts (st, p) = Inr (st', p')
            \<and> mset (prices st' table) = mset (prices st table)"
proof (induction ts arbitrary: st p)
  case Nil
  then show ?case by simp
next
  case (Cons a ts)
  from Cons.prems have sa: "settled st table W a" by simp
  from validate_tsid_settled[OF nf sa, of p] obtain st1 p1 where
    v: "validate_tsid e table W [consensus_id st] a (st, p) = Inr (st1, p1)"
    and m: "mset (prices st1 table) = mset (prices st table)" by blast
  have cid: "consensus_id st1 = consensus_id st" by (rule consensus_id_validate[OF v])
  have s1: "\<forall>t \<in> S. settled st1 table W t"
  proof
    fix t assume t: "t \<in> S"
    show "settled st1 table W t"
    proof (cases "t = a")
      case True
      with validate_tsid_settles[OF nf v] show ?thesis by simp
    next
      case False
      with t Cons.prems(1) validate_tsid_settled_other[OF v False] show ?thesis by simp
    qed
  qed
  from Cons.prems(2) have "set ts \<subseteq> S" by simp
  from Cons.IH[OF s1 this, of p1] cid obtain st' p' where
    "tsid_loop e table W [consensus_id st] ts (st1, p1) = Inr (st', p')"
    "mset (prices st' table) = mset (prices st1 table)" by auto
  with v m show ?case by simp
qed

lemma tsid_loop_consensus_id:
  "tsid_loop e table W excl ts (st, p) = Inr (st', p') \<Longrightarrow> consensus_id st' = consensus_id st"
proof (induction ts arbitrary: st p)
  case Nil
  then show ?case by simp
next
  case (Cons a ts)
  from Cons.prems obtain st1 p1 where
    v: "validate_tsid e table W excl a (st, p) = Inr (st1, p1)"
    and l: "tsid_loop e table W excl ts (st1, p1) = Inr (st', p')"
    by (auto split: sum.splits)
  from Cons.IH[OF l] consensus_id_validate[OF v] show ?case by simp
qed

lemma example_first_run: "\<exists>db1. cross_validate no_faults_env example_db_prior ''daily_prices'' [''A'', ''B''] example_weights = Inr db1
   \<and> prices db1 ''daily_prices'' = example_after_run"
  by (simp add: example_simps)

section \<open>The claims about the voter\<close>





text \<open>
  Claim C5. Candidates whose source is in the exclusion list contribute nothing:
  the round over the candidates and the round over the candidates with the excluded
  ones filtered out give the same support map (or the same exception) and the same
  consensus value.
\<close>

theorem excluded_candidates_contribute_nothing:
  "source_loop excl weights_df [] (surviving excl candidates) = source_loop excl weights_df [] candidates
   \<and> field_vote excl weights_df (surviving excl candidates) = field_vote excl weights_df candidates"
  by (simp add: field_vote_def source_loop_surviving)

theorem excluded_candidates_contribute_nothing_witness:
  "source_loop [3] [((0, 1), 20), ((0, 2), 50)] [] [(1, Num 10), (2, Num 12)]
     = source_loop [3] [((0, 1), 20), ((0, 2), 50)] [] [(1, Num 10), (3, Num 99), (2, Num 12)]
   \<and> field_vote [3] [((0, 1), 20), ((0, 2), 50)] [(1, Num 10), (3, Num 99), (2, Num 12)] = Inr (Num 12)"
proof -
  have s: "surviving [3] [(1, Num 10), (3, Num 99), (2, Num 12)] = [(1, Num 10), (2, Num 12)]"
    by (simp add: surviving_def)
  have v: "field_vote [3] [((0, 1), 20), ((0, 2), 50)] [(1, Num 10), (2, Num 12)] = Inr (Num 12)"
    by (simp add: field_vote_def consensus_value_def vote_source.simps source_weight_0_def)
  from excluded_candidates_contribute_nothing[of "[3]" "[((0, 1), 20), ((0, 2), 50)]" "[(1, Num 10), (3, Num 99), (2, Num 12)]"]
  show ?thesis unfolding s v by simp
qed

text \<open>
  Claim C8. A source that is not excluded, appears in the round and has no row in
  \<open>weights_df\<close> makes the round raise: no weight is defaulted and the source is not
  skipped.
\<close>

theorem unresolvable_weight_raises:
  assumes "(s, v) \<in> set candidates" and "s \<notin> set excl" and "weight_entries weights_df s = []"
  shows "field_vote excl weights_df candidates = Inl LookupError"
  using field_vote_unresolved[of "(s, v)" candidates excl weights_df] assms
  by (simp add: no_entries_not_resolves)

theorem unresolvable_weight_raises_witness:
  "(4, Num 12) \<in> set [(1, Num 10), (4, Num 12)] \<and> 4 \<notin> set [3 :: source_id]
   \<and> weight_entries test_source_weights_df 4 = []
   \<and> field_vote [3] test_source_weights_df [(1, Num 10), (4, Num 12)] = Inl LookupError"
proof -
  have a: "(4, Num 12) \<in> set [(1 :: source_id, Num 10), (4, Num 12)]" by simp
  have b: "4 \<notin> set [3 :: source_id]" by simp
  have c: "weight_entries test_source_weights_df 4 = []"
    by (simp add: weight_entries_def test_source_weights_df_def range_index_def enumerate_eq_zip upt_rec)
  from unresolvable_weight_raises[OF a b c] a b c show ?thesis by simp
qed

text \<open>
  Claim C9. The support map is to hold, for each value, the sum of the weights of the
  sources that reported it, each source's weight being the one \<open>weights_df\<close> lists for
  it. With the weights frame of the \<open>__main__\<close> block, sources 1 and 2 are both listed
  (weights 20 and 50), yet the lookup for source 2 raises, because its row carries the
  index label \<open>1\<close> and line 130/135/148 reads the label \<open>0\<close>: the round over
  (source 1, 10.0) and (source 2, 12.0) builds no support map.
\<close>

theorem main_weights_lookup_raises:
  "weight_entries test_source_weights_df 1 = [20]
   \<and> weight_entries test_source_weights_df 2 = [50]
   \<and> source_weight_0 test_source_weights_df 1 = Inr 20
   \<and> source_weight_0 test_source_weights_df 2 = Inl LookupError
   \<and> source_loop [3] test_source_weights_df [] [(1, Num 10), (2, Num 12)] = Inl LookupError
   \<and> field_vote [3] test_source_weights_df [(1, Num 10), (2, Num 12)] = Inl LookupError"
  by (simp add: weight_entries_def test_source_weights_df_def range_index_def enumerate_eq_zip upt_rec
      field_vote_def vote_source.simps source_weight_0_def)

text \<open>
  Claim C10. Under two weights frames that both resolve every surviving source, the
  round produces the same result: the consensus value does not depend on the weights.
\<close>

theorem winner_independent_of_weights:
  assumes "\<forall>sd \<in> set (surviving excl candidates). resolves W1 (fst sd)"
    and "\<forall>sd \<in> set (surviving excl candidates). resolves W2 (fst sd)"
  shows "field_vote excl W1 candidates = field_vote excl W2 candidates"
  by (simp add: field_vote_eq[OF assms(1)] field_vote_eq[OF assms(2)])

theorem winner_independent_of_weights_witness:
  "field_vote [3] [((0, 1), 20), ((0, 2), 50)] [(1, Num 10), (3, Num 99), (2, Num 12)]
     = field_vote [3] [((0, 1), 70), ((0, 2), 5)] [(1, Num 10), (3, Num 99), (2, Num 12)]
   \<and> field_vote [3] [((0, 1), 70), ((0, 2), 5)] [(1, Num 10), (3, Num 99), (2, Num 12)] = Inr (Num 12)"
proof -
  have a: "\<forall>sd \<in> set (surviving [3] [(1, Num 10), (3, Num 99), (2, Num 12)]). resolves [((0, 1), 20), ((0, 2), 50)] (fst sd)"
    by (simp add: surviving_def resolves_def source_weight_0_def)
  have b: "\<forall>sd \<in> set (surviving [3] [(1, Num 10), (3, Num 99), (2, Num 12)]). resolves [((0, 1), 70), ((0, 2), 5)] (fst sd)"
    by (simp add: surviving_def resolves_def source_weight_0_def)
  have v: "field_vote [3] [((0, 1), 70), ((0, 2), 5)] [(1, Num 10), (3, Num 99), (2, Num 12)] = Inr (Num 12)"
    by (simp add: field_vote_def consensus_value_def vote_source.simps source_weight_0_def)
  from winner_independent_of_weights[OF a b] v show ?thesis by simp
qed

section \<open>The claims about the assembler and the persistence step\<close>

text \<open>
  Claim C2. When no collaborator fails and a run of \<open>cross_validate\<close> returns, a second
  run on the store the first one left, with the same table, tsid list and weights,
  returns as well and leaves the table with the same rows, each as often as before: the
  consensus rows of every tsid are those of the first run, none twice, none changed.
\<close>

theorem cross_validate_idempotent:
  assumes "no_faults e" and "cross_validate e db table tsid_list weights_df = Inr db1"
  shows "\<exists>db2. cross_validate e db1 table tsid_list weights_df = Inr db2
           \<and> mset (prices db2 table) = mset (prices db1 table)
           \<and> mset (consensus_rows db2 table tsid) = mset (consensus_rows db1 table tsid)"
proof -
  have ex: "map (retrieve_data_vendor_id st) source_exclude_list = [consensus_id st]" for st
    by (simp add: source_exclude_list_def consensus_id_def)
  from assms(2) obtain p1 where
    l1: "tsid_loop e table weights_df [consensus_id db] tsid_list (db, None) = Inr (db1, p1)"
    by (auto simp: cross_validate_def Let_def ex split: sum.splits)
  from tsid_loop_settles[OF assms(1) l1, of "{}"]
  have s: "\<forall>t \<in> set tsid_list. settled db1 table weights_df t" by simp
  from tsid_loop_settled[OF assms(1) s, of tsid_list None] obtain db2 p2 where
    l2: "tsid_loop e table weights_df [consensus_id db1] tsid_list (db1, None) = Inr (db2, p2)"
    and m: "mset (prices db2 table) = mset (prices db1 table)" by auto
  have cid: "consensus_id db2 = consensus_id db1" by (rule tsid_loop_consensus_id[OF l2])
  from l2 have r: "cross_validate e db1 table tsid_list weights_df = Inr db2"
    by (simp add: cross_validate_def Let_def ex)
  have "mset (consensus_rows db2 table tsid) = mset (consensus_rows db1 table tsid)"
    by (simp add: consensus_rows_def cid m)
  with r m show ?thesis by blast
qed

theorem cross_validate_idempotent_witness:
  "no_faults no_faults_env
   \<and> (\<exists>db1 db2. cross_validate no_faults_env example_db_prior ''daily_prices'' [''A'', ''B''] example_weights = Inr db1
        \<and> prices db1 ''daily_prices'' = example_after_run
        \<and> cross_validate no_faults_env db1 ''daily_prices'' [''A'', ''B''] example_weights = Inr db2
        \<and> mset (prices db2 ''daily_prices'') = mset example_after_run)"
proof -
  have nf: "no_faults no_faults_env"
    by (simp add: no_faults_def no_faults_env_def)
  obtain db1 where r1: "cross_validate no_faults_env example_db_prior ''daily_prices'' [''A'', ''B''] example_weights = Inr db1"
    and p1: "prices db1 ''daily_prices'' = example_after_run"
    using example_first_run by (elim exE conjE)
  from cross_validate_idempotent[OF nf r1, of "''A''"] obtain db2 where
    r2: "cross_validate no_faults_env db1 ''daily_prices'' [''A'', ''B''] example_weights = Inr db2"
    and m: "mset (prices db2 ''daily_prices'') = mset (prices db1 ''daily_prices'')" by (elim exE conjE)
  from m p1 have m': "mset (prices db2 ''daily_prices'') = mset example_after_run" by (simp only:)
  from r1 p1 r2 m' have "\<exists>db1 db2. cross_validate no_faults_env example_db_prior ''daily_prices'' [''A'', ''B''] example_weights = Inr db1
        \<and> prices db1 ''daily_prices'' = example_after_run
        \<and> cross_validate no_faults_env db1 ''daily_prices'' [''A'', ''B''] example_weights = Inr db2
        \<and> mset (prices db2 ''daily_prices'') = mset example_after_run"
    by (intro exI[of _ db1] exI[of _ db2] conjI)
  with nf show ?thesis by (intro conjI)
qed



text \<open>
  Claim C4. A period and field whose candidates are all excluded is to show as a gap in
  the output, not as a crash. In \<open>example_db_gap\<close> the period \<open>d2\<close> of tsid \<open>A\<close> has a
  consensus row only: the round raises \<open>ValueError\<close> (\<open>max\<close> of no keys, line 152), the
  exception leaves \<open>cross_validate\<close>, nothing is written for \<open>A\<close> and tsid \<open>B\<close> is never
  reached.
\<close>

theorem empty_support_map_aborts_run:
  "field_vote [3] example_weights (field_data r_open (xs (query_all_tsid_prices example_db_gap ''daily_prices'' ''A'') ''d2''))
     = Inl ValueError
   \<and> validate_tsid no_faults_env ''daily_prices'' example_weights [3] ''A'' (example_db_gap, None) = Inl ValueError
   \<and> cross_validate no_faults_env example_db_gap ''daily_prices'' [''A'', ''B''] example_weights
     = Inl (ValueError, example_db_gap)"
  by (simp add: example_simps)

text \<open>
  Claim C6. After a run of \<open>cross_validate\<close> that returns, every tsid of the list whose
  delete did not fail has at most one consensus row per period in the table: the dates
  of its consensus rows are distinct.
\<close>

theorem at_most_one_consensus_row:
  assumes "cross_validate e db table tsid_list weights_df = Inr db'"
    and "tsid \<in> set tsid_list" and "\<not> delete_fails e tsid"
  shows "distinct (map r_date (consensus_rows db' table tsid))"
proof -
  from assms(1) obtain p' where
    "tsid_loop e table weights_df (map (retrieve_data_vendor_id db) source_exclude_list)
       tsid_list (db, None) = Inr (db', p')"
    by (auto simp: cross_validate_def Let_def split: sum.splits)
  from tsid_loop_supersedes[OF this assms(2,3)] show ?thesis .
qed

theorem at_most_one_consensus_row_witness:
  "''A'' \<in> set [''A'', ''B''] \<and> \<not> delete_fails no_faults_env ''A''
   \<and> (\<exists>db'. cross_validate no_faults_env example_db_prior ''daily_prices'' [''A'', ''B''] example_weights = Inr db'
        \<and> map r_date (consensus_rows db' ''daily_prices'' ''A'') = [''d1'', ''d2'']
        \<and> distinct (map r_date (consensus_rows db' ''daily_prices'' ''A'')))"
proof -
  have a: "''A'' \<in> set [''A'', ''B'']" by simp
  have b: "\<not> delete_fails no_faults_env ''A''" by (simp add: no_faults_env_def)
  have "\<exists>db'. cross_validate no_faults_env example_db_prior ''daily_prices'' [''A'', ''B''] example_weights = Inr db'
        \<and> map r_date (consensus_rows db' ''daily_prices'' ''A'') = [''d1'', ''d2'']"
    by (simp add: example_simps consensus_rows_def consensus_id_def)
  then obtain db' where
    r: "cross_validate no_faults_env example_db_prior ''daily_prices'' [''A'', ''B''] example_weights = Inr db'"
    and c: "map r_date (consensus_rows db' ''daily_prices'' ''A'') = [''d1'', ''d2'']" by (elim exE conjE)
  from at_most_one_consensus_row[OF r a b] have d: "distinct (map r_date (consensus_rows db' ''daily_prices'' ''A''))" .
  from r c d have "\<exists>db'. cross_validate no_faults_env example_db_prior ''daily_prices'' [''A'', ''B''] example_weights = Inr db'
        \<and> map r_date (consensus_rows db' ''daily_prices'' ''A'') = [''d1'', ''d2'']
        \<and> distinct (map r_date (consensus_rows db' ''daily_prices'' ''A''))"
    by (intro exI[of _ db'] conjI)
  with a b show ?thesis by (intro conjI)
qed

text \<open>
  When the extraction fails, the \<open>finally\<close> block never skips the period: with
  \<open>period_df\<close> unbound it raises, and with the transpose of an earlier block bound it
  transposes that back and raises at the weight lookup of the first row.
\<close>

lemma failed_extraction_unbound:
  "xs_fails e t d \<Longrightarrow> date_loop e excl W t df (d # ds) (None, cdf) = Inl UnboundLocalError"
  by simp

lemma failed_extraction_bound:
  "xs_fails e t d \<Longrightarrow> p \<noteq> [] \<Longrightarrow>
   date_loop e excl W t df (d # ds) (Some (By_field p), cdf) = Inl LookupError"
  by (cases p) (simp_all add: finally_block_def)

text \<open>
  Claim C7. A period whose block cannot be extracted is to be logged and skipped, the
  remaining periods of the instrument going on. The voting code stands in the
  \<open>finally\<close> block of lines 94--153 and runs on whatever \<open>period_df\<close> holds. When the
  extraction of \<open>d2\<close> fails, \<open>period_df\<close> is the transpose of the block of \<open>d1\<close>; line 97
  transposes it back, the field names are taken for sources and the weight lookup
  raises. When the extraction of the first period fails, \<open>period_df\<close> is unbound. Either
  way the exception leaves \<open>cross_validate\<close>: nothing is written for the instrument
  and the next one is never reached.
\<close>

theorem failed_extraction_aborts_run:
  "date_loop (no_faults_env\<lparr>xs_fails := (\<lambda>t d. d = ''d2'')\<rparr>) [3] example_weights ''A''
     (query_all_tsid_prices example_db ''daily_prices'' ''A'') [''d1'', ''d2''] (None, [])
   = Inl LookupError
   \<and> cross_validate (no_faults_env\<lparr>xs_fails := (\<lambda>t d. d = ''d2'')\<rparr>) example_db ''daily_prices''
       [''A'', ''B''] example_weights
   = Inl (LookupError, example_db)
   \<and> date_loop (no_faults_env\<lparr>xs_fails := (\<lambda>t d. d = ''d1'')\<rparr>) [3] example_weights ''A''
     (query_all_tsid_prices example_db ''daily_prices'' ''A'') [''d1'', ''d2''] (None, [])
   = Inl UnboundLocalError
   \<and> cross_validate (no_faults_env\<lparr>xs_fails := (\<lambda>t d. d = ''d1'')\<rparr>) example_db ''daily_prices''
       [''A'', ''B''] example_weights
   = Inl (UnboundLocalError, example_db)"
  by (simp add: example_simps)

end
